theory Spec2Isabelle
  imports Main "HOL-Library.Multiset"
begin

section \<open>The snaking word puzzle: \<open>findStringInSnakingPuzzle\<close>\<close>

text \<open>
  The embedding follows the JavaScript function \<open>findStringInSnakingPuzzle\<close> and its
  inner functions \<open>snakeFind\<close>, \<open>getTopLetter\<close>, \<open>getRightLetter\<close>,
  \<open>getBottomLetter\<close>, \<open>getLeftLetter\<close> and \<open>getLetterObj\<close>.

  A JavaScript string is a sequence of UTF-16 code units; \<open>split('')\<close>,
  \<open>charAt\<close>, \<open>slice\<close> and \<open>===\<close> all work on code units. The type of code units
  is the type parameter \<open>'c\<close>; a string is a \<open>'c list\<close>. The array
  \<open>puzzleArr = puzzle.map(el => el.split(''))\<close> holds one array of one-unit strings per
  row; a one-unit string is represented by its unit, so \<open>puzzleArr\<close> is the list of the
  rows themselves (\<open>''.split('')\<close> is the empty array).

  Row and column numbers are JavaScript numbers that only ever hold small integers; they
  are \<open>int\<close>, because the helpers step to \<open>-1\<close>.
\<close>

subsection \<open>Values and errors\<close>

text \<open>
  Reading a property of \<open>undefined\<close> throws a \<open>TypeError\<close>. A call for which the
  engine has no room left on its call stack throws a \<open>RangeError\<close>. The function has no
  \<open>try\<close>, so either ends the whole call.
\<close>

datatype error = TypeError | RangeError

text \<open>
  \<open>xs[i]\<close> on an array: the element, or \<open>undefined\<close> (here \<open>None\<close>) when \<open>i\<close> is not
  an index of the array.
\<close>

definition index :: "'a list \<Rightarrow> int \<Rightarrow> 'a option" where
  "index xs i = (if 0 \<le> i \<and> i < int (length xs) then Some (xs ! nat i) else None)"

text \<open>
  The object built by \<open>getLetterObj\<close>: \<open>{ letter: puzzleArr[row][coll], row, coll }\<close>.
  The letter is \<open>undefined\<close> (\<open>None\<close>) when the row is shorter than the column asks.
\<close>

record 'c letterObj =
  letter :: "'c option"
  row :: int
  coll :: int

subsection \<open>The neighbour helpers\<close>

definition getLetterObj :: "'c list list \<Rightarrow> int \<Rightarrow> int \<Rightarrow> error + 'c letterObj" where
  "getLetterObj puzzleArr r c =
     (case index puzzleArr r of
        None \<Rightarrow> Inl TypeError
      | Some line \<Rightarrow> Inr \<lparr>letter = index line c, row = r, coll = c\<rparr>)"

text \<open>
  \<open>if ( !puzzleArr[ --row ] ) return null;\<close>: an array is truthy, \<open>undefined\<close> is falsy.
  The result \<open>null\<close> is \<open>None\<close>.
\<close>

definition getTopLetter :: "'c list list \<Rightarrow> int \<Rightarrow> int \<Rightarrow> error + 'c letterObj option" where
  "getTopLetter puzzleArr r c =
     (case index puzzleArr (r - 1) of
        None \<Rightarrow> Inr None
      | Some line \<Rightarrow> map_sum id Some (getLetterObj puzzleArr (r - 1) c))"

text \<open>
  \<open>if ( !puzzleArr[ row ][ ++coll ] ) return null;\<close>: reading \<open>puzzleArr[row]\<close> at a row
  that is not there gives \<open>undefined\<close>, and indexing that throws. A stored cell is a
  one-unit string, which is truthy.
\<close>

definition getRightLetter :: "'c list list \<Rightarrow> int \<Rightarrow> int \<Rightarrow> error + 'c letterObj option" where
  "getRightLetter puzzleArr r c =
     (case index puzzleArr r of
        None \<Rightarrow> Inl TypeError
      | Some line \<Rightarrow>
          (case index line (c + 1) of
             None \<Rightarrow> Inr None
           | Some u \<Rightarrow> map_sum id Some (getLetterObj puzzleArr r (c + 1))))"

definition getBottomLetter :: "'c list list \<Rightarrow> int \<Rightarrow> int \<Rightarrow> error + 'c letterObj option" where
  "getBottomLetter puzzleArr r c =
     (case index puzzleArr (r + 1) of
        None \<Rightarrow> Inr None
      | Some line \<Rightarrow> map_sum id Some (getLetterObj puzzleArr (r + 1) c))"

definition getLeftLetter :: "'c list list \<Rightarrow> int \<Rightarrow> int \<Rightarrow> error + 'c letterObj option" where
  "getLeftLetter puzzleArr r c =
     (case index puzzleArr r of
        None \<Rightarrow> Inl TypeError
      | Some line \<Rightarrow>
          (case index line (c - 1) of
             None \<Rightarrow> Inr None
           | Some u \<Rightarrow> map_sum id Some (getLetterObj puzzleArr r (c - 1))))"

definition getLettersAround ::
  "('c list list \<Rightarrow> int \<Rightarrow> int \<Rightarrow> error + 'c letterObj option) list" where
  "getLettersAround = [getTopLetter, getRightLetter, getBottomLetter, getLeftLetter]"

subsection \<open>\<open>snakeFind\<close>\<close>

text \<open>\<open>Array.prototype.map\<close> with a callback that may throw: the first throw ends it.\<close>

fun map_throwing :: "('a \<Rightarrow> error + 'b) \<Rightarrow> 'a list \<Rightarrow> error + 'b list" where
  "map_throwing f [] = Inr []"
| "map_throwing f (x # xs) =
     (case f x of
        Inl e \<Rightarrow> Inl e
      | Inr y \<Rightarrow> (case map_throwing f xs of Inl e \<Rightarrow> Inl e | Inr ys \<Rightarrow> Inr (y # ys)))"

text \<open>
  The constant \<open>lettersAround\<close> of \<open>snakeFind\<close>: the four helpers are called at
  \<open>(row, coll)\<close>, the results other than \<open>null\<close> whose letter is \<open>findLetter\<close> are kept,
  and of those the ones that no blocked cell equals. A blocked cell is the pair
  \<open>[row, coll]\<close>.
\<close>

definition lettersAround ::
  "'c list list \<Rightarrow> int \<Rightarrow> int \<Rightarrow> 'c \<Rightarrow> (int \<times> int) list \<Rightarrow> error + 'c letterObj list" where
  "lettersAround puzzleArr r c findLetter blockedCells =
     (case map_throwing (\<lambda>fn. fn puzzleArr r c) getLettersAround of
        Inl e \<Rightarrow> Inl e
      | Inr els \<Rightarrow>
          Inr (filter
                 (\<lambda>el. list_all
                    (\<lambda>blockedCell. fst blockedCell \<noteq> row el \<or> snd blockedCell \<noteq> coll el)
                    blockedCells)
                 (map the
                    (filter (\<lambda>el. el \<noteq> None \<and> letter (the el) = Some findLetter) els))))"

text \<open>
  \<open>snakeFind\<close> pushes onto and pops from the one array \<open>blockedCells\<close> that all its
  recursive calls share, so the array is passed in and returned. \<open>snakeFind_loop\<close> is
  the \<open>for\<close> loop over \<open>lettersAround\<close>, from position \<open>i\<close> on; its argument is
  \<open>searchStr.slice(1)\<close>. A \<open>return true\<close> leaves the pushed cell on the array.
\<close>

function snakeFind ::
    "'c list list \<Rightarrow> int \<Rightarrow> int \<Rightarrow> 'c list \<Rightarrow> (int \<times> int) list \<Rightarrow> error + (bool \<times> (int \<times> int) list)"
  and snakeFind_loop ::
    "'c list list \<Rightarrow> 'c list \<Rightarrow> 'c letterObj list \<Rightarrow> (int \<times> int) list \<Rightarrow> error + (bool \<times> (int \<times> int) list)"
  where
  "snakeFind puzzleArr r c [] blockedCells = Inr (True, blockedCells)"
| "snakeFind puzzleArr r c (findLetter # rest) blockedCells =
     (case lettersAround puzzleArr r c findLetter blockedCells of
        Inl e \<Rightarrow> Inl e
      | Inr around \<Rightarrow> snakeFind_loop puzzleArr rest around blockedCells)"
| "snakeFind_loop puzzleArr rest [] blockedCells = Inr (False, blockedCells)"
| "snakeFind_loop puzzleArr rest (el # els) blockedCells =
     (case snakeFind puzzleArr (row el) (coll el) rest (blockedCells @ [(row el, coll el)]) of
        Inl e \<Rightarrow> Inl e
      | Inr (found, blockedCells') \<Rightarrow>
          if found then Inr (True, blockedCells')
          else snakeFind_loop puzzleArr rest els (butlast blockedCells'))"
  by pat_completeness auto
termination
  by (relation "measures [\<lambda>x. case x of Inl (p, r, c, s, b) \<Rightarrow> length s | Inr (p, s, els, b) \<Rightarrow> length s,
                          \<lambda>x. case x of Inl (p, r, c, s, b) \<Rightarrow> 0 | Inr (p, s, els, b) \<Rightarrow> Suc (length els)]")
     auto

subsection \<open>The scan over the grid\<close>

text \<open>
  The inner loop \<open>for ( coll = 0; coll < puzzleArr[ row ].length; coll++ )\<close> over the
  columns still to visit. \<open>Inr True\<close> is the \<open>return true\<close> of the function,
  \<open>Inr False\<close> the end of the loop. \<open>firstChar\<close> is \<open>searchStr.charAt( 0 )\<close>, the empty
  string for an empty \<open>searchStr\<close>; a cell is a one-unit string.
\<close>

fun collLoop :: "'c list list \<Rightarrow> 'c list \<Rightarrow> nat \<Rightarrow> nat list \<Rightarrow> error + bool" where
  "collLoop puzzleArr searchStr r [] = Inr False"
| "collLoop puzzleArr searchStr r (c # cs) =
     (if [puzzleArr ! r ! c] = take 1 searchStr then
        (case snakeFind puzzleArr (int r) (int c) (drop 1 searchStr) [(int r, int c)] of
           Inl e \<Rightarrow> Inl e
         | Inr (found, blockedCells) \<Rightarrow>
             if found then Inr True else collLoop puzzleArr searchStr r cs)
      else collLoop puzzleArr searchStr r cs)"

text \<open>The outer loop \<open>for ( row = 0; row < puzzleArr.length; row++ )\<close>.\<close>

fun rowLoop :: "'c list list \<Rightarrow> 'c list \<Rightarrow> nat list \<Rightarrow> error + bool" where
  "rowLoop puzzleArr searchStr [] = Inr False"
| "rowLoop puzzleArr searchStr (r # rs) =
     (case collLoop puzzleArr searchStr r [0 ..< length (puzzleArr ! r)] of
        Inl e \<Rightarrow> Inl e
      | Inr found \<Rightarrow> if found then Inr True else rowLoop puzzleArr searchStr rs)"

definition findStringInSnakingPuzzle :: "'c list list \<Rightarrow> 'c list \<Rightarrow> error + bool" where
  "findStringInSnakingPuzzle puzzle searchStr = rowLoop puzzle searchStr [0 ..< length puzzle]"

subsection \<open>The search on a bounded call stack\<close>

text \<open>
  The definitions above follow the language: a call always has room. An engine gives the
  recursion of \<open>snakeFind\<close> a stack of limited size, and the recursive call inside the
  \<open>for\<close> loop is not a tail call, so every matched character holds one more activation
  of \<open>snakeFind\<close>. The size of the stack is not in the source; it is the parameter
  \<open>maxDepth\<close>, the number of nested activations of \<open>snakeFind\<close> (each with the calls to
  the helpers and callbacks it makes) that the engine has room for. \<open>depth\<close> is the number
  of activations once the call is entered; a call with \<open>maxDepth < depth\<close> throws
  \<open>RangeError\<close>. Everything else is \<open>snakeFind\<close>, \<open>collLoop\<close>, \<open>rowLoop\<close> and
  \<open>findStringInSnakingPuzzle\<close> again; the scan calls \<open>snakeFind\<close> at depth 1.
\<close>

function snakeFind_stack ::
    "nat \<Rightarrow> nat \<Rightarrow> 'c list list \<Rightarrow> int \<Rightarrow> int \<Rightarrow> 'c list \<Rightarrow> (int \<times> int) list \<Rightarrow>
     error + (bool \<times> (int \<times> int) list)"
  and snakeFind_loop_stack ::
    "nat \<Rightarrow> nat \<Rightarrow> 'c list list \<Rightarrow> 'c list \<Rightarrow> 'c letterObj list \<Rightarrow> (int \<times> int) list \<Rightarrow>
     error + (bool \<times> (int \<times> int) list)"
  where
  "snakeFind_stack maxDepth depth puzzleArr r c [] blockedCells =
     (if maxDepth < depth then Inl RangeError else Inr (True, blockedCells))"
| "snakeFind_stack maxDepth depth puzzleArr r c (findLetter # rest) blockedCells =
     (if maxDepth < depth then Inl RangeError
      else
        (case lettersAround puzzleArr r c findLetter blockedCells of
           Inl e \<Rightarrow> Inl e
         | Inr around \<Rightarrow> snakeFind_loop_stack maxDepth depth puzzleArr rest around blockedCells))"
| "snakeFind_loop_stack maxDepth depth puzzleArr rest [] blockedCells = Inr (False, blockedCells)"
| "snakeFind_loop_stack maxDepth depth puzzleArr rest (el # els) blockedCells =
     (case snakeFind_stack maxDepth (Suc depth) puzzleArr (row el) (coll el) rest
             (blockedCells @ [(row el, coll el)]) of
        Inl e \<Rightarrow> Inl e
      | Inr (found, blockedCells') \<Rightarrow>
          if found then Inr (True, blockedCells')
          else snakeFind_loop_stack maxDepth depth puzzleArr rest els (butlast blockedCells'))"
  by pat_completeness auto
termination
  by (relation "measures [\<lambda>x. case x of Inl (m, d, p, r, c, s, b) \<Rightarrow> length s
                                       | Inr (m, d, p, s, els, b) \<Rightarrow> length s,
                          \<lambda>x. case x of Inl (m, d, p, r, c, s, b) \<Rightarrow> 0
                                       | Inr (m, d, p, s, els, b) \<Rightarrow> Suc (length els)]")
     auto

fun collLoop_stack :: "nat \<Rightarrow> 'c list list \<Rightarrow> 'c list \<Rightarrow> nat \<Rightarrow> nat list \<Rightarrow> error + bool" where
  "collLoop_stack maxDepth puzzleArr searchStr r [] = Inr False"
| "collLoop_stack maxDepth puzzleArr searchStr r (c # cs) =
     (if [puzzleArr ! r ! c] = take 1 searchStr then
        (case snakeFind_stack maxDepth 1 puzzleArr (int r) (int c) (drop 1 searchStr)
                [(int r, int c)] of
           Inl e \<Rightarrow> Inl e
         | Inr (found, blockedCells) \<Rightarrow>
             if found then Inr True else collLoop_stack maxDepth puzzleArr searchStr r cs)
      else collLoop_stack maxDepth puzzleArr searchStr r cs)"

fun rowLoop_stack :: "nat \<Rightarrow> 'c list list \<Rightarrow> 'c list \<Rightarrow> nat list \<Rightarrow> error + bool" where
  "rowLoop_stack maxDepth puzzleArr searchStr [] = Inr False"
| "rowLoop_stack maxDepth puzzleArr searchStr (r # rs) =
     (case collLoop_stack maxDepth puzzleArr searchStr r [0 ..< length (puzzleArr ! r)] of
        Inl e \<Rightarrow> Inl e
      | Inr found \<Rightarrow> if found then Inr True else rowLoop_stack maxDepth puzzleArr searchStr rs)"

definition findStringInSnakingPuzzle_stack :: "nat \<Rightarrow> 'c list list \<Rightarrow> 'c list \<Rightarrow> error + bool" where
  "findStringInSnakingPuzzle_stack maxDepth puzzle searchStr =
     rowLoop_stack maxDepth puzzle searchStr [0 ..< length puzzle]"

section \<open>Grid cells, adjacency and snake paths\<close>

text \<open>
  The notions the properties are stated in. A cell coordinate is the pair (row, column);
  it is a cell of the grid when the row is stored and the column lies inside that row.
\<close>

definition inGrid :: "'c list list \<Rightarrow> int \<times> int \<Rightarrow> bool" where
  "inGrid puzzleArr cell =
     (0 \<le> fst cell \<and> fst cell < int (length puzzleArr) \<and>
      0 \<le> snd cell \<and> snd cell < int (length (puzzleArr ! nat (fst cell))))"

definition cellChar :: "'c list list \<Rightarrow> int \<times> int \<Rightarrow> 'c" where
  "cellChar puzzleArr cell = puzzleArr ! nat (fst cell) ! nat (snd cell)"

text \<open>Four-directional adjacency: one unit apart in exactly one axis.\<close>

definition adjacent :: "int \<times> int \<Rightarrow> int \<times> int \<Rightarrow> bool" where
  "adjacent a b =
     ((fst a = fst b \<and> \<bar>snd a - snd b\<bar> = 1) \<or> (snd a = snd b \<and> \<bar>fst a - fst b\<bar> = 1))"

text \<open>
  A simple path that spells \<open>query\<close>: distinct cells of the grid, each adjacent to the one
  before it, whose characters in order are \<open>query\<close>.
\<close>

definition snakePath :: "'c list list \<Rightarrow> (int \<times> int) list \<Rightarrow> 'c list \<Rightarrow> bool" where
  "snakePath puzzleArr p query =
     (distinct p \<and> list_all (inGrid puzzleArr) p \<and> successively adjacent p \<and>
      map (cellChar puzzleArr) p = query)"

text \<open>A grid is rectangular with \<open>columnCount\<close> columns when every row has that length.\<close>

definition rectangular :: "'c list list \<Rightarrow> nat \<Rightarrow> bool" where
  "rectangular puzzle columnCount = list_all (\<lambda>line. length line = columnCount) puzzle"

text \<open>The grid of the documentation comment.\<close>

definition examplePuzzle :: "string list" where
  "examplePuzzle = [''ANGULAR'', ''REDNCAE'', ''RFIDTCL'', ''AGNEGSA'', ''YTIRTSP'']"

subsection \<open>Auxiliary notions for the proofs\<close>

text \<open>The four probes of \<open>getLettersAround\<close>, in its order: top, right, bottom, left.\<close>

definition around :: "int \<Rightarrow> int \<Rightarrow> (int \<times> int) list" where
  "around r c = [(r - 1, c), (r, c + 1), (r + 1, c), (r, c - 1)]"

definition cellOf :: "'c letterObj \<Rightarrow> int \<times> int" where
  "cellOf el = (row el, coll el)"

definition objAt :: "'c \<Rightarrow> int \<times> int \<Rightarrow> 'c letterObj" where
  "objAt x n = \<lparr>letter = Some x, row = fst n, coll = snd n\<rparr>"

text \<open>What the first filter of \<open>snakeFind\<close> keeps of one helper's result.\<close>

definition keep :: "'c \<Rightarrow> 'c letterObj option \<Rightarrow> 'c letterObj list" where
  "keep x v = map the (filter (\<lambda>el. el \<noteq> None \<and> letter (the el) = Some x) [v])"

definition probe :: "'c list list \<Rightarrow> 'c \<Rightarrow> int \<times> int \<Rightarrow> 'c letterObj list" where
  "probe P x n = (if inGrid P n \<and> cellChar P n = x then [objAt x n] else [])"

text \<open>
  \<open>canExtend P cell s blocked\<close>: from \<open>cell\<close> the path can go on through distinct,
  unblocked cells that spell \<open>s\<close>.
\<close>

definition canExtend :: "'c list list \<Rightarrow> int \<times> int \<Rightarrow> 'c list \<Rightarrow> (int \<times> int) list \<Rightarrow> bool" where
  "canExtend P cell s blocked =
     (\<exists>p. successively adjacent (cell # p) \<and> distinct p \<and> list_all (inGrid P) p \<and>
          set p \<inter> set blocked = {} \<and> map (cellChar P) p = s)"

definition startsAt :: "'c list list \<Rightarrow> 'c list \<Rightarrow> int \<times> int \<Rightarrow> bool" where
  "startsAt P s cell = ([cellChar P cell] = take 1 s \<and> canExtend P cell (drop 1 s) [cell])"

text \<open>All cells of the grid, in the row-major order of the scan.\<close>

definition allCells :: "'c list list \<Rightarrow> (int \<times> int) list" where
  "allCells P = concat (map (\<lambda>r. map (\<lambda>c. (int r, int c)) [0 ..< length (P ! r)]) [0 ..< length P])"

section \<open>The search decides the existence of a snake path\<close>

subsection \<open>The neighbours that \<open>snakeFind\<close> tries\<close>

lemma adjacent_around: "adjacent cell n \<longleftrightarrow> n \<in> set (around (fst cell) (snd cell))"
  by (cases n; cases cell) (auto simp: adjacent_def around_def)

lemma getTopLetter_keep:
  "\<exists>v. getTopLetter P r c = Inr v \<and> keep x v = probe P x (r - 1, c)"
  by (simp add: getTopLetter_def getLetterObj_def index_def keep_def probe_def inGrid_def
      cellChar_def objAt_def)

lemma getBottomLetter_keep:
  "\<exists>v. getBottomLetter P r c = Inr v \<and> keep x v = probe P x (r + 1, c)"
  by (simp add: getBottomLetter_def getLetterObj_def index_def keep_def probe_def inGrid_def
      cellChar_def objAt_def)

lemma getRightLetter_keep:
  "inGrid P (r, c) \<Longrightarrow> \<exists>v. getRightLetter P r c = Inr v \<and> keep x v = probe P x (r, c + 1)"
  by (simp add: getRightLetter_def getLetterObj_def index_def keep_def probe_def inGrid_def
      cellChar_def objAt_def)

lemma getLeftLetter_keep:
  "inGrid P (r, c) \<Longrightarrow> \<exists>v. getLeftLetter P r c = Inr v \<and> keep x v = probe P x (r, c - 1)"
  by (simp add: getLeftLetter_def getLetterObj_def index_def keep_def probe_def inGrid_def
      cellChar_def objAt_def)

lemma filter_keep:
  "map the (filter (\<lambda>el. el \<noteq> None \<and> letter (the el) = Some x) [a, b, c, d])
   = keep x a @ keep x b @ keep x c @ keep x d"
  by (simp add: keep_def)

lemma probe_filter:
  "probe P x a @ probe P x b @ probe P x c @ probe P x d
   = map (objAt x) (filter (\<lambda>n. inGrid P n \<and> cellChar P n = x) [a, b, c, d])"
  by (simp add: probe_def)

lemma filter_blocked:
  "filter (\<lambda>el. list_all (\<lambda>blockedCell. fst blockedCell \<noteq> row el \<or> snd blockedCell \<noteq> coll el) blocked)
     (map (objAt x) ns)
   = map (objAt x) (filter (\<lambda>n. n \<notin> set blocked) ns)"
  by (induction ns) (auto simp: objAt_def list_all_iff)

lemma lettersAround_eq:
  assumes "inGrid P (r, c)"
  shows "lettersAround P r c x blocked =
    Inr (map (objAt x) (filter (\<lambda>n. inGrid P n \<and> cellChar P n = x \<and> n \<notin> set blocked) (around r c)))"
proof -
  obtain t where t: "getTopLetter P r c = Inr t" "keep x t = probe P x (r - 1, c)"
    using getTopLetter_keep [of P r c x] by blast
  obtain ri where ri: "getRightLetter P r c = Inr ri" "keep x ri = probe P x (r, c + 1)"
    using getRightLetter_keep [OF assms, of x] by blast
  obtain b where b: "getBottomLetter P r c = Inr b" "keep x b = probe P x (r + 1, c)"
    using getBottomLetter_keep [of P r c x] by blast
  obtain l where l: "getLeftLetter P r c = Inr l" "keep x l = probe P x (r, c - 1)"
    using getLeftLetter_keep [OF assms, of x] by blast
  have "map_throwing (\<lambda>fn. fn P r c) getLettersAround = Inr [t, ri, b, l]"
    by (simp add: getLettersAround_def t(1) ri(1) b(1) l(1))
  then have "lettersAround P r c x blocked =
      Inr (filter (\<lambda>el. list_all (\<lambda>blockedCell. fst blockedCell \<noteq> row el \<or> snd blockedCell \<noteq> coll el) blocked)
            (map (objAt x) (filter (\<lambda>n. inGrid P n \<and> cellChar P n = x) (around r c))))"
    unfolding lettersAround_def
    by (simp only: sum.case filter_keep t(2) ri(2) b(2) l(2) probe_filter around_def)
  then show ?thesis
    by (simp only: filter_blocked filter_filter conj_assoc)
qed

subsection \<open>\<open>snakeFind\<close> against \<open>canExtend\<close>\<close>

lemma canExtend_Nil: "canExtend P cell [] blocked"
  unfolding canExtend_def by (rule exI [of _ "[]"]) simp

lemma canExtend_Cons:
  "canExtend P cell (x # rest) blocked \<longleftrightarrow>
   (\<exists>n \<in> set (filter (\<lambda>n. inGrid P n \<and> cellChar P n = x \<and> n \<notin> set blocked)
                  (around (fst cell) (snd cell))).
      canExtend P n rest (blocked @ [n]))"
  (is "?L \<longleftrightarrow> ?R")
proof
  assume ?L
  then obtain p where "successively adjacent (cell # p) \<and> distinct p \<and>
      list_all (inGrid P) p \<and> set p \<inter> set blocked = {} \<and> map (cellChar P) p = x # rest"
    unfolding canExtend_def ..
  then have p: "successively adjacent (cell # p)" "distinct p"
      "list_all (inGrid P) p" "set p \<inter> set blocked = {}" "map (cellChar P) p = x # rest"
    by simp_all
  from p(5) obtain n p' where np: "p = n # p'" by (cases p) simp_all
  have adj: "adjacent cell n" using p(1) unfolding np by simp
  have 1: "successively adjacent (n # p')" using p(1) unfolding np by simp
  have 2: "distinct p'" and 3: "n \<notin> set p'" using p(2) unfolding np by simp_all
  have 4: "list_all (inGrid P) p'" and 5: "inGrid P n" using p(3) unfolding np by simp_all
  have 6: "set p' \<inter> set blocked = {}" and 7: "n \<notin> set blocked"
    using p(4) unfolding np by simp_all
  have 8: "map (cellChar P) p' = rest" and 9: "cellChar P n = x"
    using p(5) unfolding np by simp_all
  have "set p' \<inter> set (blocked @ [n]) = {}" using 6 3 by simp
  with 1 2 4 8 have "canExtend P n rest (blocked @ [n])"
    unfolding canExtend_def by (intro exI [of _ p'] conjI)
  moreover have "n \<in> set (filter (\<lambda>n. inGrid P n \<and> cellChar P n = x \<and> n \<notin> set blocked)
                  (around (fst cell) (snd cell)))"
    using adj 5 9 7 by (simp add: adjacent_around)
  ultimately show ?R by blast
next
  assume ?R
  then obtain n where nin: "n \<in> set (filter (\<lambda>n. inGrid P n \<and> cellChar P n = x \<and> n \<notin> set blocked)
                  (around (fst cell) (snd cell)))"
    and ce: "canExtend P n rest (blocked @ [n])"
    by blast
  from nin have n: "adjacent cell n" "inGrid P n" "cellChar P n = x"
      "n \<notin> set blocked"
    by (simp_all add: adjacent_around)
  from ce obtain p' where "successively adjacent (n # p') \<and> distinct p' \<and>
      list_all (inGrid P) p' \<and> set p' \<inter> set (blocked @ [n]) = {} \<and> map (cellChar P) p' = rest"
    unfolding canExtend_def ..
  then have p': "successively adjacent (n # p')" "distinct p'"
      "list_all (inGrid P) p'" "set p' \<inter> set (blocked @ [n]) = {}" "map (cellChar P) p' = rest"
    by simp_all
  have a: "successively adjacent (cell # n # p')" using n(1) p'(1) by simp
  have b: "distinct (n # p')" using p'(2,4) by simp
  have c: "list_all (inGrid P) (n # p')" using n(2) p'(3) by simp
  have d: "set (n # p') \<inter> set blocked = {}" using n(4) p'(4) by simp
  have e: "map (cellChar P) (n # p') = x # rest" using n(3) p'(5) by simp
  show ?L
    unfolding canExtend_def using a b c d e by (intro exI [of _ "n # p'"] conjI)
qed

lemma cellOf_objAt: "cellOf (objAt x n) = n"
  by (simp add: cellOf_def objAt_def)

lemma snakeFind_canExtend:
  "inGrid P (r, c) \<Longrightarrow>
     \<exists>b. snakeFind P r c s blocked = Inr (canExtend P (r, c) s blocked, b) \<and>
         (\<not> canExtend P (r, c) s blocked \<longrightarrow> b = blocked)"
  and snakeFind_loop_canExtend:
  "list_all (\<lambda>el. inGrid P (cellOf el)) els \<Longrightarrow>
     \<exists>b. snakeFind_loop P rest els blocked =
           Inr (list_ex (\<lambda>el. canExtend P (cellOf el) rest (blocked @ [cellOf el])) els, b) \<and>
         (\<not> list_ex (\<lambda>el. canExtend P (cellOf el) rest (blocked @ [cellOf el])) els \<longrightarrow> b = blocked)"
proof (induction P r c s blocked and P rest els blocked rule: snakeFind_snakeFind_loop.induct)
  case (1 P r c blocked)
  show ?case by (simp add: canExtend_Nil)
next
  case (2 P r c x rest blocked)
  let ?ns = "filter (\<lambda>n. inGrid P n \<and> cellChar P n = x \<and> n \<notin> set blocked) (around r c)"
  let ?ex = "list_ex (\<lambda>el. canExtend P (cellOf el) rest (blocked @ [cellOf el])) (map (objAt x) ?ns)"
  have la: "lettersAround P r c x blocked = Inr (map (objAt x) ?ns)"
    using lettersAround_eq [OF "2.prems"] .
  have "list_all (\<lambda>el. inGrid P (cellOf el)) (map (objAt x) ?ns)"
    by (simp add: list_all_iff cellOf_objAt)
  from "2.IH" [OF la this]
  obtain b where b: "snakeFind_loop P rest (map (objAt x) ?ns) blocked = Inr (?ex, b) \<and>
      (\<not> ?ex \<longrightarrow> b = blocked)" ..
  have eq: "?ex \<longleftrightarrow> canExtend P (r, c) (x # rest) blocked"
    unfolding canExtend_Cons list_ex_iff by (simp add: cellOf_objAt)
  show ?case
    using b by (simp add: la eq)
next
  case (3 P rest blocked)
  show ?case by simp
next
  case (4 P rest el els blocked)
  let ?n = "cellOf el"
  let ?ex = "list_ex (\<lambda>el. canExtend P (cellOf el) rest (blocked @ [cellOf el])) els"
  have el: "inGrid P (row el, coll el)" and els: "list_all (\<lambda>el. inGrid P (cellOf el)) els"
    using "4.prems" by (simp_all add: cellOf_def)
  from "4.IH"(1) [OF el]
  obtain b where b0: "snakeFind P (row el) (coll el) rest (blocked @ [(row el, coll el)]) =
        Inr (canExtend P (row el, coll el) rest (blocked @ [(row el, coll el)]), b) \<and>
      (\<not> canExtend P (row el, coll el) rest (blocked @ [(row el, coll el)]) \<longrightarrow> b = blocked @ [(row el, coll el)])" ..
  then have b: "snakeFind P (row el) (coll el) rest (blocked @ [(row el, coll el)]) =
        Inr (canExtend P ?n rest (blocked @ [?n]), b)"
      "\<not> canExtend P ?n rest (blocked @ [?n]) \<longrightarrow> b = blocked @ [?n]"
    by (simp_all add: cellOf_def)
  show ?case
  proof (cases "canExtend P ?n rest (blocked @ [?n])")
    case True
    then show ?thesis using b(1) by simp
  next
    case False
    then have b': "b = blocked @ [?n]" using b(2) by simp
    have sf: "snakeFind P (row el) (coll el) rest (blocked @ [(row el, coll el)]) = Inr (False, b)"
      using b(1) False by simp
    have nf: "\<not> False" by simp
    have bl: "butlast b = blocked" using b' by simp
    from "4.IH"(2) [OF sf refl nf els]
    obtain b2 where b2: "snakeFind_loop P rest els blocked = Inr (?ex, b2) \<and> (\<not> ?ex \<longrightarrow> b2 = blocked)"
      unfolding bl ..
    show ?thesis
      using False b2 by (simp add: sf bl)
  qed
qed

subsection \<open>The scan\<close>

lemma collLoop_startsAt:
  "r < length P \<Longrightarrow> list_all (\<lambda>c. c < length (P ! r)) cs \<Longrightarrow>
   collLoop P s r cs = Inr (list_ex (\<lambda>c. startsAt P s (int r, int c)) cs)"
proof (induction cs)
  case Nil
  show ?case by simp
next
  case (Cons c cs)
  have c: "c < length (P ! r)" and cs: "list_all (\<lambda>c. c < length (P ! r)) cs"
    using Cons.prems(2) by simp_all
  have ig: "inGrid P (int r, int c)"
    using Cons.prems(1) c by (simp add: inGrid_def)
  have ch: "cellChar P (int r, int c) = P ! r ! c"
    by (simp add: cellChar_def)
  have IH: "collLoop P s r cs = Inr (list_ex (\<lambda>c. startsAt P s (int r, int c)) cs)"
    using Cons.IH [OF Cons.prems(1) cs] .
  obtain b where b: "snakeFind P (int r) (int c) (drop 1 s) [(int r, int c)] =
      Inr (canExtend P (int r, int c) (drop 1 s) [(int r, int c)], b) \<and>
      (\<not> canExtend P (int r, int c) (drop 1 s) [(int r, int c)] \<longrightarrow> b = [(int r, int c)])"
    using snakeFind_canExtend [OF ig, of "drop 1 s" "[(int r, int c)]"] ..
  show ?case
    using b by (simp add: IH startsAt_def ch)
qed

lemma rowLoop_startsAt:
  "list_all (\<lambda>r. r < length P) rs \<Longrightarrow>
   rowLoop P s rs =
     Inr (list_ex (\<lambda>r. list_ex (\<lambda>c. startsAt P s (int r, int c)) [0 ..< length (P ! r)]) rs)"
proof (induction rs)
  case Nil
  show ?case by simp
next
  case (Cons r rs)
  have r: "r < length P" and rs: "list_all (\<lambda>r. r < length P) rs"
    using Cons.prems by simp_all
  have "list_all (\<lambda>c. c < length (P ! r)) [0 ..< length (P ! r)]"
    by (simp add: list_all_iff)
  from collLoop_startsAt [OF r this, of s] Cons.IH [OF rs]
  show ?case by simp
qed

lemma find_startsAt:
  "findStringInSnakingPuzzle P s = Inr (\<exists>cell. inGrid P cell \<and> startsAt P s cell)"
proof -
  have "list_all (\<lambda>r. r < length P) [0 ..< length P]"
    by (simp add: list_all_iff)
  from rowLoop_startsAt [OF this, of s]
  have "findStringInSnakingPuzzle P s =
     Inr (\<exists>r < length P. \<exists>c < length (P ! r). startsAt P s (int r, int c))"
    by (simp add: findStringInSnakingPuzzle_def list_ex_iff Bex_def)
  moreover have "(\<exists>r < length P. \<exists>c < length (P ! r). startsAt P s (int r, int c)) \<longleftrightarrow>
      (\<exists>cell. inGrid P cell \<and> startsAt P s cell)" (is "?A \<longleftrightarrow> ?B")
  proof
    assume ?A
    then obtain r c where "r < length P" "c < length (P ! r)" "startsAt P s (int r, int c)"
      by blast
    then have "inGrid P (int r, int c) \<and> startsAt P s (int r, int c)"
      by (simp add: inGrid_def)
    then show ?B ..
  next
    assume ?B
    then obtain cell where cell: "inGrid P cell" "startsAt P s cell" by blast
    have "nat (fst cell) < length P" "nat (snd cell) < length (P ! nat (fst cell))"
      using cell(1) by (simp_all add: inGrid_def nat_less_iff)
    moreover have "cell = (int (nat (fst cell)), int (nat (snd cell)))"
      using cell(1) by (simp add: inGrid_def)
    ultimately show ?A using cell(2) by metis
  qed
  ultimately show ?thesis by simp
qed

lemma startsAt_snakePath:
  "(\<exists>cell. inGrid P cell \<and> startsAt P s cell) \<longleftrightarrow> s \<noteq> [] \<and> (\<exists>p. snakePath P p s)"
  (is "?A \<longleftrightarrow> ?B")
proof
  assume ?A
  then obtain cell where cell: "inGrid P cell" "[cellChar P cell] = take 1 s"
      "canExtend P cell (drop 1 s) [cell]"
    unfolding startsAt_def by blast
  from cell(2) obtain x rest where s: "s = x # rest" by (cases s) auto
  from cell(3) obtain p where "successively adjacent (cell # p) \<and> distinct p \<and>
      list_all (inGrid P) p \<and> set p \<inter> set [cell] = {} \<and> map (cellChar P) p = drop 1 s"
    unfolding canExtend_def ..
  then have p: "successively adjacent (cell # p)" "distinct p" "list_all (inGrid P) p"
      "cell \<notin> set p" "map (cellChar P) p = rest"
    by (simp_all add: s)
  have "cellChar P cell = x" using cell(2) by (simp add: s)
  then have "snakePath P (cell # p) s"
    unfolding snakePath_def using p cell(1) by (simp add: s)
  moreover have ne: "s \<noteq> []" by (simp add: s)
  ultimately show ?B by blast
next
  assume ?B
  then obtain p where ne: "s \<noteq> []" and sp: "snakePath P p s" by blast
  from sp have m: "map (cellChar P) p = s" by (simp add: snakePath_def)
  with ne obtain cell p' where p: "p = cell # p'" by (cases p) auto
  from ne obtain x rest where s: "s = x # rest" by (cases s) auto
  have 1: "inGrid P cell" "cellChar P cell = x" "map (cellChar P) p' = rest"
      "successively adjacent (cell # p')" "distinct p'" "cell \<notin> set p'" "list_all (inGrid P) p'"
    using sp unfolding snakePath_def p s by simp_all
  have "canExtend P cell rest [cell]"
    unfolding canExtend_def using 1 by (intro exI [of _ p']) simp
  then have "inGrid P cell \<and> startsAt P s cell"
    using 1(1,2) by (simp add: startsAt_def s)
  then show ?A ..
qed

lemma find_snakePath:
  "findStringInSnakingPuzzle P s = Inr (s \<noteq> [] \<and> (\<exists>p. snakePath P p s))"
  by (simp only: find_startsAt startsAt_snakePath)

section \<open>Properties of snake paths\<close>

lemma adjacent_sym: "adjacent a b = adjacent b a"
  by (auto simp: adjacent_def)

lemma snakePath_rev: "snakePath P p q \<Longrightarrow> snakePath P (rev p) (rev q)"
proof -
  assume sp: "snakePath P p q"
  have flip: "(\<lambda>x y. adjacent y x) = adjacent"
    by (intro ext) (rule adjacent_sym)
  have "successively adjacent (rev p) = successively adjacent p"
    by (simp only: successively_rev flip)
  then show ?thesis
    using sp by (auto simp: snakePath_def rev_map)
qed

lemma in_allCells:
  assumes "r < length P" "c < length (P ! r)"
  shows "(int r, int c) \<in> set (allCells P)"
proof -
  have "(int r, int c) \<in> set (map (\<lambda>c. (int r, int c)) [0 ..< length (P ! r)])"
    using assms(2) by simp
  moreover have "r \<in> set [0 ..< length P]"
    using assms(1) by simp
  ultimately have "\<exists>r' \<in> set [0 ..< length P].
      (int r, int c) \<in> set (map (\<lambda>c. (int r', int c)) [0 ..< length (P ! r')])"
    by (rule bexI)
  then show ?thesis
    unfolding allCells_def by (simp only: set_concat set_map UN_iff bex_simps image_iff)
qed

lemma set_allCells: "set (allCells P) = {cell. inGrid P cell}"
proof (intro set_eqI iffI)
  fix cell assume "cell \<in> set (allCells P)"
  then obtain r c where "r < length P" "c < length (P ! r)" "cell = (int r, int c)"
    by (auto simp: allCells_def)
  then show "cell \<in> {cell. inGrid P cell}" by (simp add: inGrid_def)
next
  fix cell assume "cell \<in> {cell. inGrid P cell}"
  then have ig: "inGrid P cell" by simp
  have 1: "nat (fst cell) < length P" "nat (snd cell) < length (P ! nat (fst cell))"
    using ig by (simp_all add: inGrid_def nat_less_iff)
  have 2: "cell = (int (nat (fst cell)), int (nat (snd cell)))"
    using ig by (simp add: inGrid_def)
  have "(int (nat (fst cell)), int (nat (snd cell))) \<in> set (allCells P)"
    using 1 by (rule in_allCells)
  then show "cell \<in> set (allCells P)" using 2 by simp
qed

lemma map_cellChar_allCells: "map (cellChar P) (allCells P) = concat P"
proof -
  have "map (cellChar P) (allCells P)
      = concat (map (\<lambda>r. map (\<lambda>c. P ! r ! c) [0 ..< length (P ! r)]) [0 ..< length P])"
    by (simp add: allCells_def map_concat cellChar_def comp_def)
  also have "\<dots> = concat (map (\<lambda>r. P ! r) [0 ..< length P])"
    by (simp add: map_nth)
  also have "\<dots> = concat P"
    by (simp add: map_nth)
  finally show ?thesis .
qed

lemma length_allCells: "rectangular P n \<Longrightarrow> length (allCells P) = length P * n"
proof -
  assume "rectangular P n"
  then have h: "\<And>r. r < length P \<Longrightarrow> length (P ! r) = n"
    by (simp add: rectangular_def list_all_length)
  have "length (allCells P) = sum_list (map (\<lambda>r. length (P ! r)) [0 ..< length P])"
    by (simp add: allCells_def length_concat comp_def)
  also have "map (\<lambda>r. length (P ! r)) [0 ..< length P] = map (\<lambda>r. n) [0 ..< length P]"
    by (rule map_cong) (simp_all add: h)
  also have "sum_list (map (\<lambda>r. n) [0 ..< length P]) = length P * n"
    by (simp add: sum_list_triv)
  finally show ?thesis .
qed

lemma distinct_mset_subseteq:
  "distinct p \<Longrightarrow> set p \<subseteq> set xs \<Longrightarrow> mset p \<subseteq># mset xs"
proof -
  assume d: "distinct p" and s: "set p \<subseteq> set xs"
  have "mset p = mset_set (set p)" using d by (simp add: mset_set_set)
  also have "\<dots> \<subseteq># mset_set (set xs)" using s by (simp add: subset_imp_msubset_mset_set)
  also have "\<dots> \<subseteq># mset xs"
    using mset_set_set_mset_msubset [of "mset xs"] by simp
  finally show ?thesis .
qed

lemma snakePath_cells:
  assumes "snakePath P p q"
  shows "mset p \<subseteq># mset (allCells P)" and "map (cellChar P) p = q"
proof -
  have "distinct p" "set p \<subseteq> set (allCells P)"
    using assms by (auto simp: snakePath_def set_allCells list_all_iff)
  then show "mset p \<subseteq># mset (allCells P)" by (rule distinct_mset_subseteq)
  show "map (cellChar P) p = q" using assms by (simp add: snakePath_def)
qed

lemma snakePath_mset: "snakePath P p q \<Longrightarrow> mset q \<subseteq># mset (concat P)"
proof -
  assume sp: "snakePath P p q"
  have "image_mset (cellChar P) (mset p) \<subseteq># image_mset (cellChar P) (mset (allCells P))"
    using snakePath_cells(1) [OF sp] by (rule image_mset_subseteq_mono)
  then have "mset (map (cellChar P) p) \<subseteq># mset (map (cellChar P) (allCells P))"
    by simp
  then show ?thesis
    by (simp only: snakePath_cells(2) [OF sp] map_cellChar_allCells)
qed

lemma snakePath_length:
  "snakePath P p q \<Longrightarrow> rectangular P n \<Longrightarrow> length q \<le> length P * n"
proof -
  assume sp: "snakePath P p q" and re: "rectangular P n"
  have "size (mset p) \<le> size (mset (allCells P))"
    using snakePath_cells(1) [OF sp] by (rule size_mset_mono)
  then have "length p \<le> length P * n"
    by (simp add: length_allCells [OF re])
  moreover have "length q = length p"
    using snakePath_cells(2) [OF sp] by auto
  ultimately show ?thesis by simp
qed

lemma snakePath_single: "(\<exists>p. snakePath P p [c]) \<longleftrightarrow> c \<in> set (concat P)"
proof
  assume "\<exists>p. snakePath P p [c]"
  then obtain p where "snakePath P p [c]" ..
  from snakePath_mset [OF this] have "set_mset (mset [c]) \<subseteq> set_mset (mset (concat P))"
    by (rule set_mset_mono)
  then show "c \<in> set (concat P)" by simp
next
  assume "c \<in> set (concat P)"
  then have "c \<in> set (map (cellChar P) (allCells P))"
    by (simp only: map_cellChar_allCells)
  then obtain cell where "cell \<in> set (allCells P)" "cellChar P cell = c"
    by auto
  then have "snakePath P [cell] [c]"
    by (simp add: snakePath_def set_allCells)
  then show "\<exists>p. snakePath P p [c]" ..
qed

section \<open>The helpers at the edge of the grid\<close>

lemma getTopLetter_null: "index puzzle (r - 1) = None \<Longrightarrow> getTopLetter puzzle r c = Inr None"
  by (simp add: getTopLetter_def)

lemma getBottomLetter_null: "index puzzle (r + 1) = None \<Longrightarrow> getBottomLetter puzzle r c = Inr None"
  by (simp add: getBottomLetter_def)

lemma index_inGrid: "inGrid puzzle (r, c) \<Longrightarrow> index puzzle r = Some (puzzle ! nat r)"
  by (simp add: inGrid_def index_def)

lemma getRightLetter_null:
  "inGrid puzzle (r, c) \<Longrightarrow> index (puzzle ! nat r) (c + 1) = None \<Longrightarrow>
   getRightLetter puzzle r c = Inr None"
  by (simp add: getRightLetter_def index_inGrid)

lemma getLeftLetter_null:
  "inGrid puzzle (r, c) \<Longrightarrow> index (puzzle ! nat r) (c - 1) = None \<Longrightarrow>
   getLeftLetter puzzle r c = Inr None"
  by (simp add: getLeftLetter_def index_inGrid)

section \<open>The bounded call stack\<close>

text \<open>
  On a bounded stack the search either exhausts the stack or does what it does without
  the bound; a stack with room for one activation of \<open>snakeFind\<close> per character of the
  search string is enough.
\<close>

lemma snakeFind_stack_cases:
  "snakeFind_stack L d P r c s b = Inl RangeError \<or>
   snakeFind_stack L d P r c s b = snakeFind P r c s b"
  and snakeFind_loop_stack_cases:
  "snakeFind_loop_stack L d P rest els b = Inl RangeError \<or>
   snakeFind_loop_stack L d P rest els b = snakeFind_loop P rest els b"
proof (induction L d P r c s b and L d P rest els b rule: snakeFind_stack_snakeFind_loop_stack.induct)
  case (1 L d P r c b)
  show ?case by simp
next
  case (2 L d P r c x rest b)
  show ?case
  proof (cases "L < d")
    case True
    then show ?thesis by simp
  next
    case False
    show ?thesis
    proof (cases "lettersAround P r c x b")
      case (Inl e)
      then show ?thesis using False by simp
    next
      case (Inr around)
      from "2.IH" [OF False Inr] show ?thesis using False Inr by simp
    qed
  qed
next
  case (3 L d P rest b)
  show ?case by simp
next
  case (4 L d P rest el els b)
  let ?b = "b @ [(row el, coll el)]"
  from "4.IH"(1) consider
      (over) "snakeFind_stack L (Suc d) P (row el) (coll el) rest ?b = Inl RangeError"
    | (same) "snakeFind_stack L (Suc d) P (row el) (coll el) rest ?b =
              snakeFind P (row el) (coll el) rest ?b"
    by blast
  then show ?case
  proof cases
    case over
    then show ?thesis by simp
  next
    case same
    show ?thesis
    proof (cases "snakeFind P (row el) (coll el) rest ?b")
      case (Inl e)
      then show ?thesis using same by simp
    next
      case (Inr res)
      obtain found b' where res: "res = (found, b')" by (cases res)
      show ?thesis
      proof (cases found)
        case True
        then show ?thesis using same Inr res by simp
      next
        case False
        have sf: "snakeFind_stack L (Suc d) P (row el) (coll el) rest ?b = Inr (found, b')"
          using same Inr res by simp
        from "4.IH"(2) [OF sf refl False]
        show ?thesis using same Inr res False by simp
      qed
    qed
  qed
qed

lemma snakeFind_stack_enough:
  "d + length s \<le> L \<Longrightarrow> snakeFind_stack L d P r c s b = snakeFind P r c s b"
  and snakeFind_loop_stack_enough:
  "Suc d + length rest \<le> L \<Longrightarrow>
   snakeFind_loop_stack L d P rest els b = snakeFind_loop P rest els b"
proof (induction L d P r c s b and L d P rest els b rule: snakeFind_stack_snakeFind_loop_stack.induct)
  case (1 L d P r c b)
  then show ?case by simp
next
  case (2 L d P r c x rest b)
  then have nl: "\<not> L < d" and le: "Suc d + length rest \<le> L" by simp_all
  show ?case
  proof (cases "lettersAround P r c x b")
    case (Inl e)
    then show ?thesis using nl by simp
  next
    case (Inr around)
    from "2.IH" [OF nl Inr le] show ?thesis using nl Inr by simp
  qed
next
  case (3 L d P rest b)
  show ?case by simp
next
  case (4 L d P rest el els b)
  let ?b = "b @ [(row el, coll el)]"
  have same: "snakeFind_stack L (Suc d) P (row el) (coll el) rest ?b =
              snakeFind P (row el) (coll el) rest ?b"
    using "4.IH"(1) "4.prems" by simp
  show ?case
  proof (cases "snakeFind P (row el) (coll el) rest ?b")
    case (Inl e)
    then show ?thesis using same by simp
  next
    case (Inr res)
    obtain found b' where res: "res = (found, b')" by (cases res)
    show ?thesis
    proof (cases found)
      case True
      then show ?thesis using same Inr res by simp
    next
      case False
      have sf: "snakeFind_stack L (Suc d) P (row el) (coll el) rest ?b = Inr (found, b')"
        using same Inr res by simp
      from "4.IH"(2) [OF sf refl False "4.prems"]
      show ?thesis using same Inr res False by simp
    qed
  qed
qed


lemma collLoop_stack_cases:
  "collLoop_stack L P s r cs = Inl RangeError \<or> collLoop_stack L P s r cs = collLoop P s r cs"
proof (induction cs)
  case Nil
  show ?case by simp
next
  case (Cons c cs)
  let ?b = "[(int r, int c)]"
  from snakeFind_stack_cases [of L 1 P "int r" "int c" "drop 1 s" ?b]
  show ?case
  proof
    assume "snakeFind_stack L 1 P (int r) (int c) (drop 1 s) ?b = Inl RangeError"
    then show ?thesis using Cons.IH by auto
  next
    assume "snakeFind_stack L 1 P (int r) (int c) (drop 1 s) ?b =
            snakeFind P (int r) (int c) (drop 1 s) ?b"
    then show ?thesis using Cons.IH by (auto split: sum.splits)
  qed
qed

lemma collLoop_stack_enough:
  "length s \<le> L \<Longrightarrow> collLoop_stack L P s r cs = collLoop P s r cs"
proof (induction cs)
  case Nil
  show ?case by simp
next
  case (Cons c cs)
  have IH: "collLoop_stack L P s r cs = collLoop P s r cs"
    using Cons by simp
  show ?case
  proof (cases "[P ! r ! c] = take 1 s")
    case False
    then show ?thesis using IH by simp
  next
    case True
    then have "s \<noteq> []" by auto
    then have "1 + length (drop 1 s) \<le> L"
      using Cons.prems by (cases s) simp_all
    from snakeFind_stack_enough [OF this]
    show ?thesis using IH by (simp split: sum.splits prod.splits)
  qed
qed

lemma rowLoop_stack_cases:
  "rowLoop_stack L P s rs = Inl RangeError \<or> rowLoop_stack L P s rs = rowLoop P s rs"
proof (induction rs)
  case Nil
  show ?case by simp
next
  case (Cons r rs)
  from collLoop_stack_cases [of L P s r "[0 ..< length (P ! r)]"]
  show ?case
  proof
    assume "collLoop_stack L P s r [0 ..< length (P ! r)] = Inl RangeError"
    then show ?thesis by simp
  next
    assume "collLoop_stack L P s r [0 ..< length (P ! r)] = collLoop P s r [0 ..< length (P ! r)]"
    then show ?thesis using Cons.IH by (auto split: sum.splits)
  qed
qed

lemma rowLoop_stack_enough:
  "length s \<le> L \<Longrightarrow> rowLoop_stack L P s rs = rowLoop P s rs"
  by (induction rs) (simp_all add: collLoop_stack_enough split: sum.splits)

lemma find_stack_cases:
  "findStringInSnakingPuzzle_stack L P s = Inl RangeError \<or>
   findStringInSnakingPuzzle_stack L P s = findStringInSnakingPuzzle P s"
  unfolding findStringInSnakingPuzzle_stack_def findStringInSnakingPuzzle_def
  by (rule rowLoop_stack_cases)

lemma find_stack_enough:
  "length s \<le> L \<Longrightarrow>
   findStringInSnakingPuzzle_stack L P s = findStringInSnakingPuzzle P s"
  unfolding findStringInSnakingPuzzle_stack_def findStringInSnakingPuzzle_def
  by (rule rowLoop_stack_enough)

text \<open>
  A first row of equal letters: \<open>getTopLetter\<close> finds no row above, so the first neighbour
  tried is the one to the right, and the search goes down one activation per letter
  before anything else is tried.
\<close>

lemma around_first_row:
  assumes P: "P \<noteq> []" "P ! 0 = replicate n a" and k: "Suc k < n"
    and bl: "list_all (\<lambda>cell. snd cell \<le> int k) blocked"
  shows "\<exists>others. lettersAround P 0 (int k) a blocked = Inr (objAt a (0, int k + 1) # others)"
proof -
  have ig: "inGrid P (0, int k)"
    using P k by (simp add: inGrid_def)
  have 1: "\<not> inGrid P (0 - 1, int k)"
    by (simp add: inGrid_def)
  have 2: "inGrid P (0, int k + 1)"
    using P k by (simp add: inGrid_def)
  have 3: "cellChar P (0, int k + 1) = a"
    using P k by (simp add: cellChar_def nat_add_distrib)
  have 4: "(0, int k + 1) \<notin> set blocked"
    using bl by (auto simp: list_all_iff)
  show ?thesis
    unfolding lettersAround_eq [OF ig] around_def using 1 2 3 4 by simp
qed

lemma snakeFind_stack_first_row:
  assumes P: "P \<noteq> []" "P ! 0 = replicate n a"
  shows "k + m < n \<Longrightarrow> list_all (\<lambda>cell. snd cell \<le> int k) blocked \<Longrightarrow> L < d + m \<Longrightarrow>
         snakeFind_stack L d P 0 (int k) (replicate m a) blocked = Inl RangeError"
proof (induction m arbitrary: k d blocked)
  case 0
  then show ?case by simp
next
  case (Suc m)
  show ?case
  proof (cases "L < d")
    case True
    then show ?thesis by simp
  next
    case False
    have k: "Suc k < n" using Suc.prems(1) by simp
    obtain others where la:
        "lettersAround P 0 (int k) a blocked = Inr (objAt a (0, int k + 1) # others)"
      using around_first_row [OF P k Suc.prems(2)] ..
    have bl: "list_all (\<lambda>cell. snd cell \<le> int (Suc k)) (blocked @ [(0, int (Suc k))])"
      using Suc.prems(2) by (auto simp: list_all_iff)
    have "snakeFind_stack L (Suc d) P 0 (int (Suc k)) (replicate m a) (blocked @ [(0, int (Suc k))])
          = Inl RangeError"
      using Suc.prems(1,3) by (intro Suc.IH [OF _ bl]) simp_all
    then have "snakeFind_stack L (Suc d) P 0 (int k + 1) (replicate m a) (blocked @ [(0, int k + 1)])
          = Inl RangeError"
      by (simp add: add.commute)
    then show ?thesis
      using False la by (simp add: objAt_def)
  qed
qed

lemma find_stack_first_row:
  assumes P: "P \<noteq> []" "P ! 0 = replicate n a" and q: "0 < q" "q \<le> n" "L < q"
  shows "findStringInSnakingPuzzle_stack L P (replicate q a) = Inl RangeError"
proof -
  obtain m where m: "q = Suc m" using q(1) by (cases q) simp_all
  have "snakeFind_stack L 1 P 0 (int 0) (replicate m a) [(0, 0)] = Inl RangeError"
    using q m by (intro snakeFind_stack_first_row [OF P]) simp_all
  then have sf: "snakeFind_stack L 1 P 0 0 (replicate m a) [(0, 0)] = Inl RangeError"
    by simp
  have n: "0 < n" using q by simp
  have rows: "[0 ..< length P] = 0 # [1 ..< length P]"
    using P(1) by (simp add: upt_conv_Cons)
  have cols: "[0 ..< length (P ! 0)] = 0 # [1 ..< n]"
    using P(2) n by (simp add: upt_conv_Cons)
  have cell: "P ! 0 ! 0 = a" using P(2) n by simp
  have "collLoop_stack L P (replicate q a) 0 (0 # [1 ..< n]) = Inl RangeError"
    using sf by (simp add: m cell)
  then show ?thesis
    unfolding findStringInSnakingPuzzle_stack_def rows by (simp add: cols)
qed

section \<open>The claims\<close>

text \<open>
  In all of them, that \<open>findStringInSnakingPuzzle\<close> returns the boolean \<open>b\<close> is
  \<open>findStringInSnakingPuzzle puzzle searchStr = Inr b\<close>; \<open>Inl\<close> would be a thrown error.
  The function is total: its recursion is the \<^theory_text>\<open>function\<close> definition of
  \<open>snakeFind\<close> above, whose termination is proved on the length of the rest of the
  search string, and the two scan loops run over the finitely many rows and columns.
  The claims about which boolean is returned are about \<open>findStringInSnakingPuzzle\<close>; the
  claims that no error is raised are about \<open>findStringInSnakingPuzzle_stack\<close>, where an
  exhausted call stack is an error too.
\<close>

subsection \<open>C1\<close>

text \<open>
  C1, as amended. For every non-empty rectangular grid and every query,
  \<open>findStringInSnakingPuzzle\<close> returns true if and only if the query is not empty and
  there is a simple path in the grid (distinct cells, consecutive ones four-directionally
  adjacent) whose characters in order are the query; otherwise it returns false.
\<close>

theorem findStringInSnakingPuzzle_iff_snakePath:
  "puzzle \<noteq> [] \<Longrightarrow> rectangular puzzle columnCount \<Longrightarrow>
   findStringInSnakingPuzzle puzzle query =
     Inr (query \<noteq> [] \<and> (\<exists>p. snakePath puzzle p query))"
  by (rule find_snakePath)

text \<open>
  On the 2 by 2 grid AB/CD the query ABD is found, and the theorem turns that into a
  path.
\<close>

theorem findStringInSnakingPuzzle_iff_snakePath_witness:
  "[''AB'', ''CD''] \<noteq> [] \<and> rectangular [''AB'', ''CD''] 2 \<and>
   findStringInSnakingPuzzle [''AB'', ''CD''] ''ABD'' = Inr True \<and>
   (\<exists>p. snakePath [''AB'', ''CD''] p ''ABD'')"
proof -
  have ne: "[''AB'', ''CD''] \<noteq> []" by simp
  have re: "rectangular [''AB'', ''CD''] 2" by (simp add: rectangular_def)
  have ev: "findStringInSnakingPuzzle [''AB'', ''CD''] ''ABD'' = Inr True" by code_simp
  have "\<exists>p. snakePath [''AB'', ''CD''] p ''ABD''"
    using findStringInSnakingPuzzle_iff_snakePath [OF ne re, of "''ABD''"] ev by simp
  with ne re ev show ?thesis by simp
qed

text \<open>
  C1 as it was stated fails for the empty query: the empty sequence of cells is a simple
  path that spells it, and the function returns false, because \<open>charAt( 0 )\<close> of the empty
  string equals no cell of the grid.
\<close>

theorem empty_query_snakePath_counterexample:
  "snakePath [''A''] [] '''' \<and> findStringInSnakingPuzzle [''A''] '''' = Inr False"
proof -
  have "snakePath [''A''] [] ''''" by (simp add: snakePath_def)
  moreover have "findStringInSnakingPuzzle [''A''] '''' = Inr False" by code_simp
  ultimately show ?thesis ..
qed

subsection \<open>C2\<close>

text \<open>
  C2, as amended. For every non-empty rectangular grid, \<open>findStringInSnakingPuzzle\<close> with
  the empty string as the query returns false: the scan compares every cell with
  \<open>searchStr.charAt( 0 )\<close>, the empty string, which no cell equals, so \<open>snakeFind\<close> and
  its test for an empty rest are never reached.
\<close>

theorem empty_query_false:
  "puzzle \<noteq> [] \<Longrightarrow> rectangular puzzle columnCount \<Longrightarrow>
   findStringInSnakingPuzzle puzzle [] = Inr False"
  by (simp add: find_snakePath)

theorem empty_query_false_witness:
  "[''AB'', ''CD''] \<noteq> [] \<and> rectangular [''AB'', ''CD''] 2 \<and>
   findStringInSnakingPuzzle [''AB'', ''CD''] '''' = Inr False"
proof -
  have ne: "[''AB'', ''CD''] \<noteq> []" by simp
  have re: "rectangular [''AB'', ''CD''] 2" by (simp add: rectangular_def)
  show ?thesis using ne re empty_query_false [OF ne re] by simp
qed

text \<open>C2 as it was stated, that the empty query returns true, fails on the grid AB/CD.\<close>

theorem empty_query_counterexample:
  "findStringInSnakingPuzzle [''AB'', ''CD''] '''' \<noteq> Inr True"
  by code_simp

subsection \<open>C3\<close>

text \<open>
  C3. On the 5 by 7 grid ANGULAR / REDNCAE / RFIDTCL / AGNEGSA / YTIRTSP the queries
  ANGULAR, ARRAY and RED return true, and FUNCTION and NULL return false.
\<close>

theorem examplePuzzle_queries:
  "findStringInSnakingPuzzle examplePuzzle ''ANGULAR'' = Inr True \<and>
   findStringInSnakingPuzzle examplePuzzle ''ARRAY'' = Inr True \<and>
   findStringInSnakingPuzzle examplePuzzle ''RED'' = Inr True \<and>
   findStringInSnakingPuzzle examplePuzzle ''FUNCTION'' = Inr False \<and>
   findStringInSnakingPuzzle examplePuzzle ''NULL'' = Inr False"
proof -
  have 1: "findStringInSnakingPuzzle examplePuzzle ''ANGULAR'' = Inr True"
    unfolding examplePuzzle_def by code_simp
  have 2: "findStringInSnakingPuzzle examplePuzzle ''ARRAY'' = Inr True"
    unfolding examplePuzzle_def by code_simp
  have 3: "findStringInSnakingPuzzle examplePuzzle ''RED'' = Inr True"
    unfolding examplePuzzle_def by code_simp
  have 4: "findStringInSnakingPuzzle examplePuzzle ''FUNCTION'' = Inr False"
    unfolding examplePuzzle_def by code_simp
  have 5: "findStringInSnakingPuzzle examplePuzzle ''NULL'' = Inr False"
    unfolding examplePuzzle_def by code_simp
  from 1 2 3 4 5 show ?thesis by (intro conjI)
qed

subsection \<open>C4\<close>

text \<open>
  C4, as amended. For every non-empty rectangular grid and every query,
  \<open>findStringInSnakingPuzzle\<close> terminates, and the only error it can raise is the
  \<open>RangeError\<close> of an exhausted call stack, never a \<open>TypeError\<close>: it raises that or returns
  a boolean. When the engine's stack has room for as many nested calls of \<open>snakeFind\<close> as
  the query has characters, it raises no error and returns a boolean, and that no path
  exists is then said by the value false.
\<close>

theorem findStringInSnakingPuzzle_stack_total:
  "puzzle \<noteq> [] \<Longrightarrow> rectangular puzzle columnCount \<Longrightarrow>
   (findStringInSnakingPuzzle_stack maxDepth puzzle query = Inl RangeError \<or>
    (\<exists>b. findStringInSnakingPuzzle_stack maxDepth puzzle query = Inr b)) \<and>
   (length query \<le> maxDepth \<longrightarrow>
      (\<exists>b. findStringInSnakingPuzzle_stack maxDepth puzzle query = Inr b))"
proof (intro conjI impI)
  show "findStringInSnakingPuzzle_stack maxDepth puzzle query = Inl RangeError \<or>
    (\<exists>b. findStringInSnakingPuzzle_stack maxDepth puzzle query = Inr b)"
    using find_stack_cases [of maxDepth puzzle query] by (auto simp: find_snakePath)
next
  assume "length query \<le> maxDepth"
  then show "\<exists>b. findStringInSnakingPuzzle_stack maxDepth puzzle query = Inr b"
    by (simp add: find_stack_enough find_snakePath)
qed

text \<open>The grid AB/CD and the query AD on a stack with room for five nested calls.\<close>

theorem findStringInSnakingPuzzle_stack_total_witness:
  "[''AB'', ''CD''] \<noteq> [] \<and> rectangular [''AB'', ''CD''] 2 \<and> length ''AD'' \<le> (5::nat) \<and>
   (\<exists>b. findStringInSnakingPuzzle_stack 5 [''AB'', ''CD''] ''AD'' = Inr b)"
proof -
  have ne: "[''AB'', ''CD''] \<noteq> []" by simp
  have re: "rectangular [''AB'', ''CD''] 2" by (simp add: rectangular_def)
  have le: "length ''AD'' \<le> (5::nat)" by simp
  show ?thesis
    using ne re le findStringInSnakingPuzzle_stack_total [OF ne re, of 5 "''AD''"] by simp
qed

text \<open>
  C4 as it was stated, that no error is ever raised, fails on a well-formed grid: one row
  of 6000 letters A, searched for 6000 letters A, needs 6000 nested calls of \<open>snakeFind\<close>,
  and on a stack with room for 5000 the call ends in \<open>RangeError\<close>. Whatever the room,
  a longer row of equal letters exhausts it.
\<close>

theorem stack_exhausted_counterexample:
  "[replicate 6000 CHR ''A''] \<noteq> [] \<and> rectangular [replicate 6000 CHR ''A''] 6000 \<and>
   findStringInSnakingPuzzle_stack 5000 [replicate 6000 CHR ''A''] (replicate 6000 CHR ''A'')
     = Inl RangeError"
proof -
  have "findStringInSnakingPuzzle_stack 5000 [replicate 6000 CHR ''A''] (replicate 6000 CHR ''A'')
     = Inl RangeError"
    by (rule find_stack_first_row [where n = 6000]) simp_all
  then show ?thesis by (simp add: rectangular_def)
qed

subsection \<open>C5\<close>

text \<open>
  C5. For every rectangular grid and every query whose multiset of characters is not
  contained in the multiset of the grid's characters, \<open>findStringInSnakingPuzzle\<close> returns
  false. A query with a character that is nowhere in the grid is such a query.
\<close>

theorem missing_characters_false:
  "rectangular puzzle columnCount \<Longrightarrow> \<not> mset query \<subseteq># mset (concat puzzle) \<Longrightarrow>
   findStringInSnakingPuzzle puzzle query = Inr False"
  using snakePath_mset [of puzzle _ query] by (auto simp: find_snakePath)

theorem missing_characters_false_witness:
  "rectangular [''AB'', ''CD''] 2 \<and> \<not> mset ''ABA'' \<subseteq># mset (concat [''AB'', ''CD'']) \<and>
   findStringInSnakingPuzzle [''AB'', ''CD''] ''ABA'' = Inr False"
proof -
  have re: "rectangular [''AB'', ''CD''] 2" by (simp add: rectangular_def)
  have "count (mset (concat [''AB'', ''CD''])) CHR ''A'' < count (mset ''ABA'') CHR ''A''"
    by simp
  then have ns: "\<not> mset ''ABA'' \<subseteq># mset (concat [''AB'', ''CD''])"
    by (metis mset_subset_eq_count not_le)
  show ?thesis using re ns missing_characters_false [OF re ns] by simp
qed

subsection \<open>C6\<close>

text \<open>
  C6. For every rectangular grid, a query of one character returns true when the
  character is in the grid and false when it is not.
\<close>

theorem single_character_query:
  "rectangular puzzle columnCount \<Longrightarrow>
   findStringInSnakingPuzzle puzzle [c] = Inr (c \<in> set (concat puzzle))"
  by (simp add: find_snakePath snakePath_single)

theorem single_character_query_witness:
  "rectangular [''AB'', ''CD''] 2 \<and>
   findStringInSnakingPuzzle [''AB'', ''CD''] ''D'' = Inr True \<and>
   findStringInSnakingPuzzle [''AB'', ''CD''] ''E'' = Inr False"
proof -
  have re: "rectangular [''AB'', ''CD''] 2" by (simp add: rectangular_def)
  show ?thesis
    using re single_character_query [OF re, of "CHR ''D''"]
      single_character_query [OF re, of "CHR ''E''"] by simp
qed

subsection \<open>C7\<close>

text \<open>
  C7. For every rectangular grid with \<open>length puzzle\<close> rows and \<open>columnCount\<close> columns,
  a query longer than the number of cells returns false.
\<close>

theorem query_longer_than_grid_false:
  "rectangular puzzle columnCount \<Longrightarrow> length puzzle * columnCount < length query \<Longrightarrow>
   findStringInSnakingPuzzle puzzle query = Inr False"
  using snakePath_length [of puzzle _ query columnCount] by (auto simp: find_snakePath)

theorem query_longer_than_grid_false_witness:
  "rectangular [''AA'', ''AA''] 2 \<and> length [''AA'', ''AA''] * 2 < length ''AAAAA'' \<and>
   findStringInSnakingPuzzle [''AA'', ''AA''] ''AAAAA'' = Inr False"
proof -
  have re: "rectangular [''AA'', ''AA''] 2" by (simp add: rectangular_def)
  have lt: "length [''AA'', ''AA''] * 2 < length ''AAAAA''" by simp
  show ?thesis using re lt query_longer_than_grid_false [OF re lt] by simp
qed

subsection \<open>C9\<close>

text \<open>
  C9, as amended. For every non-empty array of strings, rows of unequal lengths
  allowed, and every search string, \<open>findStringInSnakingPuzzle\<close> never throws a
  \<open>TypeError\<close>: it returns a boolean or, when the nested calls of \<open>snakeFind\<close> exhaust the
  engine's call stack, ends in \<open>RangeError\<close>; with room for as many nested calls as the
  search string has characters it returns a boolean. \<open>getTopLetter\<close> and
  \<open>getBottomLetter\<close> return \<open>null\<close> when the row they probe is not stored;
  \<open>getRightLetter\<close> and \<open>getLeftLetter\<close>, called at a cell of the grid, return \<open>null\<close>
  when the column they probe is outside that cell's row; and the neighbours that
  \<open>snakeFind\<close> goes on to try are exactly the unblocked cells of the grid next to the
  current one that hold the wanted letter, so a probe of a cell that is not stored never
  matches.
\<close>

theorem ragged_grid_safe:
  "puzzle \<noteq> [] \<Longrightarrow>
   (findStringInSnakingPuzzle_stack maxDepth puzzle searchStr = Inl RangeError \<or>
    (\<exists>b. findStringInSnakingPuzzle_stack maxDepth puzzle searchStr = Inr b)) \<and>
   (length searchStr \<le> maxDepth \<longrightarrow>
      (\<exists>b. findStringInSnakingPuzzle_stack maxDepth puzzle searchStr = Inr b)) \<and>
   (index puzzle (rt - 1) = None \<longrightarrow> getTopLetter puzzle rt ct = Inr None) \<and>
   (index puzzle (rb + 1) = None \<longrightarrow> getBottomLetter puzzle rb cb = Inr None) \<and>
   (inGrid puzzle (rr, cr) \<and> index (puzzle ! nat rr) (cr + 1) = None \<longrightarrow>
      getRightLetter puzzle rr cr = Inr None) \<and>
   (inGrid puzzle (rl, cl) \<and> index (puzzle ! nat rl) (cl - 1) = None \<longrightarrow>
      getLeftLetter puzzle rl cl = Inr None) \<and>
   (inGrid puzzle (r, c) \<longrightarrow>
      lettersAround puzzle r c findLetter blockedCells =
        Inr (map (objAt findLetter)
               (filter (\<lambda>n. inGrid puzzle n \<and> cellChar puzzle n = findLetter \<and> n \<notin> set blockedCells)
                  (around r c))))"
proof (intro conjI impI)
  show "findStringInSnakingPuzzle_stack maxDepth puzzle searchStr = Inl RangeError \<or>
    (\<exists>b. findStringInSnakingPuzzle_stack maxDepth puzzle searchStr = Inr b)"
    using find_stack_cases [of maxDepth puzzle searchStr] by (auto simp: find_snakePath)
next
  assume "length searchStr \<le> maxDepth"
  then show "\<exists>b. findStringInSnakingPuzzle_stack maxDepth puzzle searchStr = Inr b"
    by (simp add: find_stack_enough find_snakePath)
next
  assume "index puzzle (rt - 1) = None"
  then show "getTopLetter puzzle rt ct = Inr None" by (rule getTopLetter_null)
next
  assume "index puzzle (rb + 1) = None"
  then show "getBottomLetter puzzle rb cb = Inr None" by (rule getBottomLetter_null)
next
  assume "inGrid puzzle (rr, cr) \<and> index (puzzle ! nat rr) (cr + 1) = None"
  then show "getRightLetter puzzle rr cr = Inr None" by (simp add: getRightLetter_null)
next
  assume "inGrid puzzle (rl, cl) \<and> index (puzzle ! nat rl) (cl - 1) = None"
  then show "getLeftLetter puzzle rl cl = Inr None" by (simp add: getLeftLetter_null)
next
  assume "inGrid puzzle (r, c)"
  then show "lettersAround puzzle r c findLetter blockedCells =
        Inr (map (objAt findLetter)
               (filter (\<lambda>n. inGrid puzzle n \<and> cellChar puzzle n = findLetter \<and> n \<notin> set blockedCells)
                  (around r c)))"
    by (rule lettersAround_eq)
qed

text \<open>
  The rows AB and A on a stack with room for five nested calls: the query BA, each helper
  at an edge, and the neighbours of the B for the letter A, where the probe below the B
  leaves the shorter second row.
\<close>

theorem ragged_grid_safe_witness:
  "[''AB'', ''A''] \<noteq> [] \<and> length ''BA'' \<le> (5::nat) \<and>
   findStringInSnakingPuzzle_stack 5 [''AB'', ''A''] ''BA'' = Inr True \<and>
   getTopLetter [''AB'', ''A''] 0 1 = Inr None \<and>
   getBottomLetter [''AB'', ''A''] 1 1 = Inr None \<and>
   getRightLetter [''AB'', ''A''] 1 0 = Inr None \<and>
   getLeftLetter [''AB'', ''A''] 0 0 = Inr None \<and>
   lettersAround [''AB'', ''A''] 0 1 CHR ''A'' [(0, 1)] = Inr [objAt CHR ''A'' (0, 0)]"
proof -
  have ne: "[''AB'', ''A''] \<noteq> []" by simp
  have le: "length ''BA'' \<le> (5::nat)" by simp
  have ev: "findStringInSnakingPuzzle_stack 5 [''AB'', ''A''] ''BA'' = Inr True" by code_simp
  have h: "index [''AB'', ''A''] (0 - 1) = None" "index [''AB'', ''A''] (1 + 1) = None"
      "inGrid [''AB'', ''A''] (1, 0) \<and> index ([''AB'', ''A''] ! nat 1) (0 + 1) = None"
      "inGrid [''AB'', ''A''] (0, 0) \<and> index ([''AB'', ''A''] ! nat 0) (0 - 1) = None"
      "inGrid [''AB'', ''A''] (0, 1)"
    by (simp_all add: index_def inGrid_def)
  have f: "filter (\<lambda>n. inGrid [''AB'', ''A''] n \<and> cellChar [''AB'', ''A''] n = CHR ''A'' \<and> n \<notin> set [(0, 1)])
             (around 0 1) = [(0, 0)]"
    by (simp add: around_def inGrid_def cellChar_def)
  show ?thesis
    using ragged_grid_safe [OF ne, of 5 "''BA''" 0 1 1 1 1 0 0 0 0 1 "CHR ''A''" "[(0, 1)]"] h ev le
    by (simp only: f list.map) simp
qed

text \<open>
  C9 as it was stated fails twice. For \<open>getBottomLetter\<close> (and likewise \<open>getTopLetter\<close>):
  the probe from the B downwards is outside the second row, the row itself is stored, and
  the helper returns an object whose letter is \<open>undefined\<close>, not \<open>null\<close>. And the function
  does throw: on a row of 6000 letters A above a row of one, searched for 6000 letters A,
  a stack with room for 5000 nested calls of \<open>snakeFind\<close> ends in \<open>RangeError\<close>.
\<close>

theorem helper_not_null_counterexample:
  "\<not> inGrid [''AB'', ''A''] (1, 1) \<and> getBottomLetter [''AB'', ''A''] 0 1 \<noteq> Inr None \<and>
   findStringInSnakingPuzzle_stack 5000 [replicate 6000 CHR ''A'', ''A''] (replicate 6000 CHR ''A'')
     = Inl RangeError"
proof -
  have "findStringInSnakingPuzzle_stack 5000 [replicate 6000 CHR ''A'', ''A''] (replicate 6000 CHR ''A'')
     = Inl RangeError"
    by (rule find_stack_first_row [where n = 6000]) simp_all
  then show ?thesis
    by (simp add: inGrid_def getBottomLetter_def getLetterObj_def index_def)
qed

subsection \<open>C10\<close>

text \<open>
  C10. For every rectangular grid and every query, the reversed query gives the same
  result as the query: a simple path read backwards is a simple path that spells the
  reversed string.
\<close>

theorem reversed_query_same_result:
  "rectangular puzzle columnCount \<Longrightarrow>
   findStringInSnakingPuzzle puzzle (rev query) = findStringInSnakingPuzzle puzzle query"
proof -
  have "(\<exists>p. snakePath puzzle p (rev query)) \<longleftrightarrow> (\<exists>p. snakePath puzzle p query)"
  proof
    assume "\<exists>p. snakePath puzzle p (rev query)"
    then obtain p where "snakePath puzzle p (rev query)" ..
    from snakePath_rev [OF this] have "snakePath puzzle (rev p) query" by simp
    then show "\<exists>p. snakePath puzzle p query" ..
  next
    assume "\<exists>p. snakePath puzzle p query"
    then obtain p where "snakePath puzzle p query" ..
    from snakePath_rev [OF this] show "\<exists>p. snakePath puzzle p (rev query)" ..
  qed
  then show ?thesis by (simp add: find_snakePath)
qed

theorem reversed_query_same_result_witness:
  "rectangular [''AB'', ''CD''] 2 \<and>
   findStringInSnakingPuzzle [''AB'', ''CD''] ''DBA'' = findStringInSnakingPuzzle [''AB'', ''CD''] ''ABD''"
proof -
  have re: "rectangular [''AB'', ''CD''] 2" by (simp add: rectangular_def)
  show ?thesis using re reversed_query_same_result [OF re, of "''ABD''"] by simp
qed

end
